theory Spec2Isabelle
  imports Main "HOL-Library.AList"
begin

section \<open>Configuration (config/config.go)\<close>

text \<open>
  The struct \<open>Config\<close>. \<open>CheckInterval\<close> is a \<open>time.Duration\<close>, an int64 count of
  nanoseconds; \<open>MaxLogSize\<close> is an int64.
\<close>

record Config =
  WatchDir :: string
  LogDir :: string
  CheckInterval :: int
  MaxLogSize :: int
  AutoAction :: bool
  IgnoreExts :: "string list"

text \<open>
  \<open>strconv.Atoi\<close> and \<open>strconv.ParseInt(s, 10, 64)\<close> of the Go standard library: an
  optional sign, then at least one decimal digit and nothing else; a value outside the
  int64 range is an error. \<open>None\<close> is \<open>err != nil\<close>.
\<close>

fun parseDigits :: "string \<Rightarrow> nat \<Rightarrow> nat option" where
  "parseDigits [] acc = Some acc"
| "parseDigits (c # cs) acc =
     (let d = (of_char c :: nat) in
      if 48 \<le> d \<and> d \<le> 57 then parseDigits cs (acc * 10 + (d - 48)) else None)"

definition ParseInt10 :: "string \<Rightarrow> int option" where
  "ParseInt10 s =
     (let neg = (s \<noteq> [] \<and> hd s = CHR ''-'');
          body = (if s \<noteq> [] \<and> (hd s = CHR ''+'' \<or> hd s = CHR ''-'') then tl s else s)
      in if body = [] then None
         else (case parseDigits body 0 of
                 None \<Rightarrow> None
               | Some un \<Rightarrow>
                   if neg then (if un > 2 ^ 63 then None else Some (- int un))
                   else (if un \<ge> 2 ^ 63 then None else Some (int un))))"

text \<open>int64 multiplication wraps around.\<close>

definition wrap64 :: "int \<Rightarrow> int" where
  "wrap64 x = (x + 2 ^ 63) mod 2 ^ 64 - 2 ^ 63"

text \<open>\<open>strings.Split(s, ":")\<close>, which is \<open>filepath.SplitList\<close> on a non-empty string (Unix).\<close>

fun splitOn :: "char \<Rightarrow> string \<Rightarrow> string list" where
  "splitOn sep [] = [[]]"
| "splitOn sep (c # cs) =
     (if c = sep then [] # splitOn sep cs
      else (case splitOn sep cs of
              [] \<Rightarrow> [[c]]
            | w # ws \<Rightarrow> (c # w) # ws))"

text \<open>
  \<open>LoadConfig\<close>. The environment is a function from variable names to values, the empty
  string for an unset variable, as \<open>os.Getenv\<close> returns it. The two \<open>ensureDir\<close> calls
  create directories and do not touch the returned value; they are left out.
\<close>

definition LoadConfig :: "(string \<Rightarrow> string) \<Rightarrow> Config" where
  "LoadConfig getenv =
     (let config = \<lparr> WatchDir = ''.'', LogDir = ''./logs'',
                      CheckInterval = 5 * 1000000000,
                      MaxLogSize = 1024 * 1024 * 10,
                      AutoAction = False,
                      IgnoreExts = [''.temp'', ''.swp''] \<rparr>;
          config = (if getenv ''WATCH_DIR'' \<noteq> [] then config\<lparr>WatchDir := getenv ''WATCH_DIR''\<rparr>
                    else config);
          config = (if getenv ''LOG_DIR'' \<noteq> [] then config\<lparr>LogDir := getenv ''LOG_DIR''\<rparr>
                    else config);
          config = (if getenv ''CHECK_INTERVAL'' \<noteq> [] then
                      (case ParseInt10 (getenv ''CHECK_INTERVAL'') of
                         Some seconds \<Rightarrow> config\<lparr>CheckInterval := wrap64 (seconds * 1000000000)\<rparr>
                       | None \<Rightarrow> config)
                    else config);
          config = (if getenv ''MAX_LOG_SIZE'' \<noteq> [] then
                      (case ParseInt10 (getenv ''MAX_LOG_SIZE'') of
                         Some bytes \<Rightarrow> config\<lparr>MaxLogSize := bytes\<rparr>
                       | None \<Rightarrow> config)
                    else config);
          config = (if getenv ''AUTO_ACTION'' = ''true'' then config\<lparr>AutoAction := True\<rparr>
                    else config);
          config = (if getenv ''IGNORE_EXTS'' \<noteq> [] then
                      config\<lparr>IgnoreExts := splitOn (CHR '':'') (getenv ''IGNORE_EXTS'')\<rparr>
                    else config)
      in config)"

text \<open>The environment in which no variable is set.\<close>

definition emptyEnv :: "string \<Rightarrow> string" where
  "emptyEnv v = []"

section \<open>Paths and the file tree (path/filepath, os)\<close>

text \<open>
  \<open>filepath.Clean\<close> on Unix, by path elements: empty and \<open>.\<close> elements are dropped, a
  \<open>..\<close> element removes the element before it unless that is itself \<open>..\<close> or there is
  none (then it is kept on a relative path and dropped on a rooted one); the empty
  result is \<open>.\<close>. The stack holds the kept elements, last first.
\<close>

fun cleanElems :: "bool \<Rightarrow> string list \<Rightarrow> string list \<Rightarrow> string list" where
  "cleanElems rooted [] stack = rev stack"
| "cleanElems rooted (e # es) stack =
     (if e = [] \<or> e = ''.'' then cleanElems rooted es stack
      else if e = ''..'' then
        (case stack of
           [] \<Rightarrow> cleanElems rooted es (if rooted then [] else [''..''])
         | t # ts \<Rightarrow> if t = ''..'' then cleanElems rooted es (''..'' # stack)
                     else cleanElems rooted es ts)
      else cleanElems rooted es (e # stack))"

fun joinElems :: "string list \<Rightarrow> string" where
  "joinElems [] = []"
| "joinElems [e] = e"
| "joinElems (e # es) = e @ ''/'' @ joinElems es"

definition Clean :: "string \<Rightarrow> string" where
  "Clean path =
     (if path = [] then ''.''
      else (let rooted = (hd path = CHR ''/'');
                out = (if rooted then ''/'' else []) @
                      joinElems (cleanElems rooted (splitOn (CHR ''/'') path) [])
            in if out = [] then ''.'' else out))"

text \<open>\<open>filepath.Join\<close> of two elements: empty elements are ignored, the result is cleaned.\<close>

definition Join :: "string \<Rightarrow> string \<Rightarrow> string" where
  "Join dir name =
     (if dir = [] \<and> name = [] then []
      else if dir = [] then Clean name
      else if name = [] then Clean dir
      else Clean (dir @ ''/'' @ name))"

text \<open>
  \<open>filepath.Ext\<close>: the suffix from the last dot of the last path element, empty when
  that element has no dot. The scan runs from the end of the path backwards.
\<close>

fun extScan :: "string \<Rightarrow> string \<Rightarrow> string" where
  "extScan [] acc = []"
| "extScan (c # cs) acc =
     (if c = CHR ''/'' then []
      else if c = CHR ''.'' then c # acc
      else extScan cs (c # acc))"

definition Ext :: "string \<Rightarrow> string" where
  "Ext path = extScan (rev path) []"

text \<open>
  What \<open>os.Lstat\<close> and the directory listing return for one path. A node is a regular
  (non-directory) entry, a directory with its entries in the sorted order in which
  \<open>filepath.Walk\<close> visits them, a directory whose listing fails, or a path whose
  \<open>Lstat\<close> fails. Sizes are int64, modification times are instants.
\<close>

datatype fserror = ENOENT | EACCES | EIO

datatype fsnode =
    File int int
  | Dir int int "(string \<times> fsnode) list"
  | DirUnreadable int int fserror
  | StatFail fserror

record FileStat =
  st_IsDir :: bool
  st_Size :: int
  st_ModTime :: int

datatype walkret = RetNil | SkipDir | SkipAll | Failure fserror

type_synonym 'st WalkFunc =
  "string \<Rightarrow> FileStat option \<Rightarrow> fserror option \<Rightarrow> 'st \<Rightarrow> walkret \<times> 'st"

fun entryIsFile :: "fsnode \<Rightarrow> bool" where
  "entryIsFile (File sz mt) = True"
| "entryIsFile _ = False"

text \<open>
  \<open>filepath.Walk\<close>. The callback of the source is a closure that writes to a local
  variable; here it takes and returns that state. \<open>walk\<close> is the unexported \<open>walk\<close>
  together with the \<open>Lstat\<close> before it: for a path whose \<open>Lstat\<close> fails the callback
  is called with the error and no info. \<open>walk_names\<close> is the loop over the names of a
  directory: \<open>SkipDir\<close> returned for a directory or for a failed \<open>Lstat\<close> only skips that
  entry, \<open>SkipDir\<close> returned for a file ends the loop and is handed to the caller.
\<close>

fun walk :: "string \<Rightarrow> fsnode \<Rightarrow> 'st WalkFunc \<Rightarrow> 'st \<Rightarrow> walkret \<times> 'st"
and walk_names :: "string \<Rightarrow> (string \<times> fsnode) list \<Rightarrow> 'st WalkFunc \<Rightarrow> 'st \<Rightarrow> walkret \<times> 'st"
where
  "walk path (StatFail e) walkFn st = walkFn path None (Some e) st"
| "walk path (File sz mt) walkFn st =
     walkFn path (Some \<lparr>st_IsDir = False, st_Size = sz, st_ModTime = mt\<rparr>) None st"
| "walk path (DirUnreadable sz mt e) walkFn st =
     walkFn path (Some \<lparr>st_IsDir = True, st_Size = sz, st_ModTime = mt\<rparr>) (Some e) st"
| "walk path (Dir sz mt entries) walkFn st =
     (case walkFn path (Some \<lparr>st_IsDir = True, st_Size = sz, st_ModTime = mt\<rparr>) None st of
        (RetNil, st') \<Rightarrow> walk_names path entries walkFn st'
      | (err1, st') \<Rightarrow> (err1, st'))"
| "walk_names path [] walkFn st = (RetNil, st)"
| "walk_names path ((name, node) # rest) walkFn st =
     (case walk (Join path name) node walkFn st of
        (RetNil, st') \<Rightarrow> walk_names path rest walkFn st'
      | (SkipDir, st') \<Rightarrow>
          if entryIsFile node then (SkipDir, st') else walk_names path rest walkFn st'
      | (err, st') \<Rightarrow> (err, st'))"

definition Walk :: "string \<Rightarrow> fsnode \<Rightarrow> 'st WalkFunc \<Rightarrow> 'st \<Rightarrow> fserror option \<times> 'st" where
  "Walk root node walkFn st =
     (case walk root node walkFn st of
        (Failure e, st') \<Rightarrow> (Some e, st')
      | (_, st') \<Rightarrow> (None, st'))"

section \<open>The monitor (package monitor)\<close>

record FileInfo =
  Path :: string
  Size :: int
  ModTime :: int
  Hash :: string
  IsDir :: bool

text \<open>
  A snapshot is a Go \<open>map[string]FileInfo\<close>: an association list with \<open>map_of\<close> as the
  lookup and \<open>AList.update\<close> as the assignment \<open>m[k] = v\<close>. Go leaves the iteration
  order of a map unspecified; \<open>range\<close> over a snapshot follows the order of the list, one
  of the admissible orders.
\<close>

type_synonym snapshot = "(string \<times> FileInfo) list"

text \<open>
  The calls the monitor makes on its logger: \<open>LogEvent(event, path)\<close> with the event
  names \<open>CRIADO\<close>, \<open>MODIFICADO\<close> and \<open>EXCLUIDO\<close> (created, modified, deleted), and the
  one \<open>Log\<close> call of \<open>scanDirectory\<close> that reports a failed walk. The results of these
  calls are ignored by the monitor.
\<close>

datatype event_kind = CRIADO | MODIFICADO | EXCLUIDO

datatype logcall = LogEvent event_kind string | LogScanError fserror

datatype chan = ChanOpen | ChanClosed

text \<open>
  The struct \<open>FileMonitor\<close>. \<open>logger\<close> holds the calls made on the logger so far, oldest
  first. \<open>stopChan\<close> is assigned in \<open>NewFileMonitor\<close> only, so the field carries the
  state of that one channel. The mutex has no field: every section of code that runs
  under it is one step of the model. \<open>loops\<close> is not a field of the source: it counts
  the \<open>monitorLoop\<close> goroutines that were started by \<open>go m.monitorLoop()\<close> and have not
  returned.
\<close>

record FileMonitor =
  config :: Config
  logger :: "logcall list"
  files :: snapshot
  isRunnig :: bool
  stopChan :: chan
  loops :: nat

definition NewFileMonitor :: "Config \<Rightarrow> FileMonitor" where
  "NewFileMonitor cfg =
     \<lparr> config = cfg, logger = [], files = [], isRunnig = False, stopChan = ChanOpen,
       loops = 0 \<rparr>"

fun extInList :: "string \<Rightarrow> string list \<Rightarrow> bool" where
  "extInList ext [] = False"
| "extInList ext (ignoreExt # rest) = (if ext = ignoreExt then True else extInList ext rest)"

definition shouldIgnore :: "Config \<Rightarrow> string \<Rightarrow> bool" where
  "shouldIgnore cfg path = extInList (Ext path) (IgnoreExts cfg)"

text \<open>The callback that \<open>scanDirectory\<close> passes to \<open>filepath.Walk\<close>; its state is \<open>currentFiles\<close>.\<close>

fun scanWalkFn :: "Config \<Rightarrow> snapshot WalkFunc" where
  "scanWalkFn cfg path info (Some err) currentFiles = (Failure err, currentFiles)"
| "scanWalkFn cfg path None None currentFiles = (RetNil, currentFiles)"
| "scanWalkFn cfg path (Some info) None currentFiles =
     (if st_IsDir info \<and> path = LogDir cfg then (SkipDir, currentFiles)
      else if \<not> st_IsDir info \<and> shouldIgnore cfg path then (RetNil, currentFiles)
      else (RetNil,
            AList.update path
              \<lparr> Path = path, Size = st_Size info, ModTime = st_ModTime info, Hash = [],
                IsDir = st_IsDir info \<rparr>
              currentFiles))"

text \<open>
  \<open>detectChanges\<close>, as the list of logger calls it makes. \<open>entryEvents\<close> is the
  \<open>if\<close>/\<open>else if\<close> at the head of the outer loop body, \<open>deletedEvents\<close> the inner loop
  over \<open>oldFiles\<close>, \<open>detectLoop\<close> the outer loop over the entries of \<open>newFiles\<close> that
  remain.
\<close>

definition entryEvents :: "snapshot \<Rightarrow> string \<Rightarrow> FileInfo \<Rightarrow> logcall list" where
  "entryEvents oldFiles path newInfo =
     (case map_of oldFiles path of
        None \<Rightarrow> [LogEvent CRIADO path]
      | Some oldInfo \<Rightarrow>
          if \<not> IsDir newInfo \<and>
             (Size newInfo \<noteq> Size oldInfo \<or> ModTime newInfo \<noteq> ModTime oldInfo \<or>
              (Hash newInfo \<noteq> [] \<and> Hash oldInfo \<noteq> [] \<and> Hash newInfo \<noteq> Hash oldInfo))
          then [LogEvent MODIFICADO path]
          else [])"

fun deletedEvents :: "snapshot \<Rightarrow> snapshot \<Rightarrow> logcall list" where
  "deletedEvents [] newFiles = []"
| "deletedEvents ((path, oldInfo) # rest) newFiles =
     (if map_of newFiles path = None then [LogEvent EXCLUIDO path] else []) @
     deletedEvents rest newFiles"

fun detectLoop :: "snapshot \<Rightarrow> snapshot \<Rightarrow> snapshot \<Rightarrow> logcall list" where
  "detectLoop [] oldFiles newFiles = []"
| "detectLoop ((path, newInfo) # rest) oldFiles newFiles =
     entryEvents oldFiles path newInfo @ deletedEvents oldFiles newFiles @
     detectLoop rest oldFiles newFiles"

definition detectChanges :: "FileMonitor \<Rightarrow> snapshot \<Rightarrow> snapshot \<Rightarrow> FileMonitor" where
  "detectChanges m oldFiles newFiles =
     m\<lparr>logger := logger m @ detectLoop newFiles oldFiles newFiles\<rparr>"

text \<open>
  \<open>scanDirectory\<close>. The second argument is what the file system holds at \<open>WatchDir\<close>
  when the walk runs. The result is the returned error and the monitor afterwards.
\<close>

definition scanDirectory :: "FileMonitor \<Rightarrow> fsnode \<Rightarrow> fserror option \<times> FileMonitor" where
  "scanDirectory m fs =
     (let oldFiles = files m in
      case Walk (WatchDir (config m)) fs (scanWalkFn (config m)) [] of
        (Some err, currentFiles) \<Rightarrow> (Some err, m\<lparr>logger := logger m @ [LogScanError err]\<rparr>)
      | (None, currentFiles) \<Rightarrow>
          (None, (detectChanges m oldFiles currentFiles)\<lparr>files := currentFiles\<rparr>))"

section \<open>Lifecycle: Start, Stop and the poll loop\<close>

datatype start_error = AlreadyRunning | ScanError fserror

text \<open>
  \<open>Start\<close> in the three parts between which other goroutines can run. \<open>Start_enter\<close> is
  the first section under the mutex, the check of the flag and its setting; its result
  says whether the call goes on. \<open>Start_finish\<close> is what follows the scan: the rollback
  under the mutex after a failed scan, the \<open>go m.monitorLoop()\<close> statement otherwise.
\<close>

definition Start_enter :: "FileMonitor \<Rightarrow> bool \<times> FileMonitor" where
  "Start_enter m = (if isRunnig m then (False, m) else (True, m\<lparr>isRunnig := True\<rparr>))"

definition Start_finish :: "fserror option \<Rightarrow> FileMonitor \<Rightarrow> start_error option \<times> FileMonitor" where
  "Start_finish r m =
     (case r of
        Some err \<Rightarrow> (Some (ScanError err), m\<lparr>isRunnig := False\<rparr>)
      | None \<Rightarrow> (None, m\<lparr>loops := Suc (loops m)\<rparr>))"

definition Start :: "FileMonitor \<Rightarrow> fsnode \<Rightarrow> start_error option \<times> FileMonitor" where
  "Start m fs =
     (case Start_enter m of
        (False, m1) \<Rightarrow> (Some AlreadyRunning, m1)
      | (True, m1) \<Rightarrow> (case scanDirectory m1 fs of (r, m2) \<Rightarrow> Start_finish r m2))"

text \<open>
  \<open>Stop\<close>. Closing a channel that is closed already is a run-time panic in Go
  (\<open>close of closed channel\<close>); the panic is the \<open>Inl\<close> result.
\<close>

datatype panic = CloseOfClosedChannel

definition Stop :: "FileMonitor \<Rightarrow> panic + FileMonitor" where
  "Stop m =
     (if isRunnig m then
        (case stopChan m of
           ChanClosed \<Rightarrow> Inl CloseOfClosedChannel
         | ChanOpen \<Rightarrow> Inr (m\<lparr>stopChan := ChanClosed, isRunnig := False\<rparr>))
      else Inr m)"

text \<open>
  The \<open>select\<close> statement of \<open>monitorLoop\<close>. A receive from the ticker can proceed when
  a tick is pending, a receive from \<open>stopChan\<close> when the channel is closed (nothing is
  ever sent on it). When both can proceed, Go picks one of them by a uniform
  pseudo-random choice; \<open>pick\<close> is that choice. When none can proceed the statement
  blocks.
\<close>

datatype select_case = CaseTicker | CaseStop

definition selectCase :: "bool \<Rightarrow> chan \<Rightarrow> select_case \<Rightarrow> select_case option" where
  "selectCase tick ch pick =
     (if tick \<and> ch = ChanClosed then Some pick
      else if tick then Some CaseTicker
      else if ch = ChanClosed then Some CaseStop
      else None)"

text \<open>
  One pass through the body of the \<open>for\<close> loop of \<open>monitorLoop\<close>, for one of the running
  loops: \<open>tick\<close> says whether a tick is pending, \<open>pick\<close> is the choice of the \<open>select\<close>,
  \<open>fs\<close> what a scan would find. The result says whether a scan ran and gives the
  monitor afterwards; a loop that returns is taken off \<open>loops\<close>. The error of the scan
  is dropped, as in the source.
\<close>

datatype loop_outcome = Scanned | Returned | Blocked

definition monitorLoop_iter ::
  "FileMonitor \<Rightarrow> bool \<Rightarrow> select_case \<Rightarrow> fsnode \<Rightarrow> loop_outcome \<times> FileMonitor" where
  "monitorLoop_iter m tick pick fs =
     (case selectCase tick (stopChan m) pick of
        Some CaseTicker \<Rightarrow> (Scanned, snd (scanDirectory m fs))
      | Some CaseStop \<Rightarrow> (Returned, m\<lparr>loops := loops m - 1\<rparr>)
      | None \<Rightarrow> (Blocked, m))"

text \<open>
  A sequence of calls on one monitor and of passes of its running loops, one after the
  other. A pass of a loop needs a running loop. A panic ends the run with the monitor
  as it was.
\<close>

datatype op = OpStart fsnode | OpStop | OpLoop bool select_case fsnode

fun run :: "op list \<Rightarrow> FileMonitor \<Rightarrow> FileMonitor" where
  "run [] m = m"
| "run (OpStart fs # ops) m = run ops (snd (Start m fs))"
| "run (OpStop # ops) m = (case Stop m of Inl p \<Rightarrow> m | Inr m' \<Rightarrow> run ops m')"
| "run (OpLoop tick pick fs # ops) m =
     (if loops m = 0 then run ops m else run ops (snd (monitorLoop_iter m tick pick fs)))"






section \<open>The calls of the callback during a walk\<close>

text \<open>
  \<open>traced walkFn\<close> is \<open>walkFn\<close> with a record of its calls: every call adds its
  arguments (path, info, error) to a list carried beside the state. \<open>walkCalls\<close> is the
  list of calls that \<open>filepath.Walk\<close> makes on a callback. A stat error during a walk
  is a call whose third argument is an error.
\<close>

type_synonym walkcall = "string \<times> FileStat option \<times> fserror option"

definition traced :: "'st WalkFunc \<Rightarrow> ('st \<times> walkcall list) WalkFunc" where
  "traced walkFn path info err s =
     (case walkFn path info err (fst s) of
        (r, st') \<Rightarrow> (r, (st', snd s @ [(path, info, err)])))"

definition walkCalls :: "string \<Rightarrow> fsnode \<Rightarrow> 'st WalkFunc \<Rightarrow> 'st \<Rightarrow> walkcall list" where
  "walkCalls root node walkFn st = snd (snd (Walk root node (traced walkFn) (st, [])))"

text \<open>A callback that returns every error it is called with.\<close>

definition passesErrors :: "'st WalkFunc \<Rightarrow> bool" where
  "passesErrors walkFn = (\<forall>p i x s. fst (walkFn p i (Some x) s) = Failure x)"

text \<open>
  \<open>tracedLike res tr tres\<close>: the traced run \<open>tres\<close> has the result and the state of the
  plain run \<open>res\<close>, it extends the record \<open>tr\<close>, and every call with an error that it
  adds is the one whose error the run returns.
\<close>

definition tracedLike :: "walkret \<times> 'st \<Rightarrow> walkcall list \<Rightarrow> walkret \<times> 'st \<times> walkcall list \<Rightarrow> bool" where
  "tracedLike res tr tres =
     (\<exists>calls. tres = (fst res, snd res, tr @ calls) \<and>
        (\<forall>c\<in>set calls. \<forall>x. snd (snd c) = Some x \<longrightarrow> fst res = Failure x))"


text \<open>
  \<open>recordsEntry\<close>: the callback of the scan, called without an error for this path
  and info, reaches its assignment to \<open>currentFiles\<close>: the entry is not the log
  directory and not a file with an ignored extension. \<open>keysFromCalls\<close>: the paths of
  the snapshot built so far are the paths of such calls.
\<close>

definition recordsEntry :: "Config \<Rightarrow> string \<Rightarrow> FileStat \<Rightarrow> bool" where
  "recordsEntry cfg path info =
     (\<not> (st_IsDir info \<and> path = LogDir cfg) \<and> \<not> (\<not> st_IsDir info \<and> shouldIgnore cfg path))"

definition keysFromCalls :: "Config \<Rightarrow> snapshot \<times> walkcall list \<Rightarrow> bool" where
  "keysFromCalls cfg s =
     (fst ` set (fst s) = {p. \<exists>i. (p, Some i, None) \<in> set (snd s) \<and> recordsEntry cfg p i})"

section \<open>Events counted in the output of \<open>detectChanges\<close>\<close>

lemma deletedEvents_count_other:
  "k \<noteq> EXCLUIDO \<Longrightarrow> count_list (deletedEvents oldFiles newFiles) (LogEvent k p) = 0"
  by (induction oldFiles newFiles rule: deletedEvents.induct) auto

lemma deletedEvents_count:
  "count_list (deletedEvents oldFiles newFiles) (LogEvent EXCLUIDO p) =
     (if map_of newFiles p = None then count_list (map fst oldFiles) p else 0)"
  by (induction oldFiles newFiles rule: deletedEvents.induct) auto

lemma entryEvents_count_created:
  "count_list (entryEvents oldFiles q newInfo) (LogEvent CRIADO p) =
     (if q = p \<and> map_of oldFiles p = None then 1 else 0)"
  by (auto simp: entryEvents_def split: option.splits)

lemma entryEvents_count_deleted:
  "count_list (entryEvents oldFiles q newInfo) (LogEvent EXCLUIDO p) = 0"
  by (auto simp: entryEvents_def split: option.splits)

lemma entryEvents_count_modified_other:
  "q \<noteq> p \<Longrightarrow> count_list (entryEvents oldFiles q newInfo) (LogEvent MODIFICADO p) = 0"
  by (auto simp: entryEvents_def split: option.splits)

lemma detectLoop_count_created:
  "count_list (detectLoop xs oldFiles newFiles) (LogEvent CRIADO p) =
     (if map_of oldFiles p = None then count_list (map fst xs) p else 0)"
  by (induction xs oldFiles newFiles rule: detectLoop.induct)
     (simp_all add: entryEvents_count_created deletedEvents_count_other)

lemma detectLoop_count_deleted:
  "count_list (detectLoop xs oldFiles newFiles) (LogEvent EXCLUIDO p) =
     length xs * count_list (deletedEvents oldFiles newFiles) (LogEvent EXCLUIDO p)"
  by (induction xs oldFiles newFiles rule: detectLoop.induct)
     (simp_all add: entryEvents_count_deleted)

lemma detectLoop_count_modified_absent:
  "p \<notin> fst ` set xs \<Longrightarrow> count_list (detectLoop xs oldFiles newFiles) (LogEvent MODIFICADO p) = 0"
  by (induction xs oldFiles newFiles rule: detectLoop.induct)
     (auto simp: entryEvents_count_modified_other deletedEvents_count_other)

lemma detectLoop_count_modified:
  assumes "distinct (map fst xs)" and "map_of xs p = Some newInfo"
  shows "count_list (detectLoop xs oldFiles newFiles) (LogEvent MODIFICADO p) =
           count_list (entryEvents oldFiles p newInfo) (LogEvent MODIFICADO p)"
  using assms
proof (induction xs oldFiles newFiles rule: detectLoop.induct)
  case (1 oldFiles newFiles)
  then show ?case by simp
next
  case (2 q qi rest oldFiles newFiles)
  show ?case
  proof (cases "q = p")
    case True
    with 2 have "p \<notin> fst ` set rest" and "qi = newInfo" by auto
    with True show ?thesis
      by (simp add: detectLoop_count_modified_absent deletedEvents_count_other)
  next
    case False
    with 2 show ?thesis
      by (simp add: entryEvents_count_modified_other deletedEvents_count_other)
  qed
qed

lemma count_keys_distinct:
  "distinct (map fst xs) \<Longrightarrow> map_of xs p = Some v \<Longrightarrow> count_list (map fst xs) p = 1"
  by (induction xs) (auto simp: count_list_0_iff rev_image_eqI dest: map_of_SomeD split: if_splits)

section \<open>What a walk with the callback of the scan keeps\<close>

lemma walk_preserves_aux:
  fixes P :: "'st \<Rightarrow> bool" and walkFn :: "'st WalkFunc"
  shows "(\<forall>p i e s. P s \<longrightarrow> P (snd (walkFn p i e s))) \<longrightarrow> P st \<longrightarrow> P (snd (walk path node walkFn st))"
    and "(\<forall>p i e s. P s \<longrightarrow> P (snd (walkFn p i e s))) \<longrightarrow> P st \<longrightarrow> P (snd (walk_names path entries walkFn st))"
proof (induction path node walkFn st and path entries walkFn st rule: walk_walk_names.induct)
  case (4 path sz mt entries walkFn st)
  show ?case
  proof (intro impI)
    assume step: "\<forall>p i e s. P s \<longrightarrow> P (snd (walkFn p i e s))" and st: "P st"
    obtain r st' where r: "walkFn path (Some \<lparr>st_IsDir = True, st_Size = sz, st_ModTime = mt\<rparr>) None st = (r, st')"
      by (cases "walkFn path (Some \<lparr>st_IsDir = True, st_Size = sz, st_ModTime = mt\<rparr>) None st")
    with step st have st': "P st'" by (metis snd_conv)
    show "P (snd (walk path (Dir sz mt entries) walkFn st))"
    proof (cases "r = RetNil")
      case True
      with 4[of r st'] r step st' show ?thesis by simp
    next
      case False
      with r st' show ?thesis by (cases r) simp_all
    qed
  qed
next
  case (6 path name node rest walkFn st)
  show ?case
  proof (intro impI)
    assume step: "\<forall>p i e s. P s \<longrightarrow> P (snd (walkFn p i e s))" and st: "P st"
    obtain r st' where r: "walk (Join path name) node walkFn st = (r, st')"
      by (cases "walk (Join path name) node walkFn st")
    with 6(1) step st have st': "P st'" by simp
    show "P (snd (walk_names path ((name, node) # rest) walkFn st))"
    proof (cases r)
      case RetNil
      with 6(2)[of r st'] r step st' show ?thesis by simp
    next
      case SkipDir
      with 6(3)[of r st'] r step st' show ?thesis by simp
    next
      case SkipAll
      with r st' show ?thesis by simp
    next
      case (Failure e)
      with r st' show ?thesis by simp
    qed
  qed
next
  case (1 path e walkFn st)
  have "walk path (StatFail e) walkFn st = walkFn path None (Some e) st" by (rule walk.simps)
  then show ?case by metis
next
  case (2 path sz mt walkFn st)
  have "walk path (File sz mt) walkFn st =
     walkFn path (Some \<lparr>st_IsDir = False, st_Size = sz, st_ModTime = mt\<rparr>) None st" by (rule walk.simps)
  then show ?case by metis
next
  case (3 path sz mt e walkFn st)
  have "walk path (DirUnreadable sz mt e) walkFn st =
     walkFn path (Some \<lparr>st_IsDir = True, st_Size = sz, st_ModTime = mt\<rparr>) (Some e) st" by (rule walk.simps)
  then show ?case by metis
next
  case (5 path walkFn st)
  have "snd (walk_names path [] walkFn st) = st" by (simp (no_asm))
  then show ?case by metis
qed



lemma scanWalkFn_cases:
  assumes "scanWalkFn cfg path info err st = (r, st')"
  shows "st' = st \<or> (\<exists>sz mt d. st' = AList.update path
             \<lparr> Path = path, Size = sz, ModTime = mt, Hash = [], IsDir = d \<rparr> st)"
proof (cases err)
  case None
  show ?thesis
  proof (cases info)
    case n: None
    with None assms show ?thesis by simp
  next
    case (Some i)
    with None assms show ?thesis by (simp split: if_splits) blast
  qed
next
  case (Some e)
  with assms show ?thesis by simp
qed

lemma set_update_cases: "x \<in> set (AList.update k v al) \<Longrightarrow> x = (k, v) \<or> x \<in> set al"
  by (induction al) (auto split: if_splits)

lemma scanWalkFn_distinct:
  assumes "distinct (map fst st)"
  shows "distinct (map fst (snd (scanWalkFn cfg path info err st)))"
proof -
  obtain r st' where r: "scanWalkFn cfg path info err st = (r, st')"
    by (cases "scanWalkFn cfg path info err st")
  from scanWalkFn_cases[OF r] assms have "distinct (map fst st')"
    by (auto simp only: distinct_update)
  with r show ?thesis by simp
qed

lemma scanWalkFn_hash:
  assumes "\<forall>x\<in>set st. Hash (snd x) = []"
  shows "\<forall>x\<in>set (snd (scanWalkFn cfg path info err st)). Hash (snd x) = []"
proof -
  obtain r st' where r: "scanWalkFn cfg path info err st = (r, st')"
    by (cases "scanWalkFn cfg path info err st")
  from scanWalkFn_cases[OF r] assms have "\<forall>x\<in>set st'. Hash (snd x) = []"
    by (auto dest!: set_update_cases)
  with r show ?thesis by simp
qed

lemma walk_scan_distinct:
  assumes "distinct (map fst st)"
  shows "distinct (map fst (snd (walk path node (scanWalkFn cfg) st)))"
proof -
  have "\<forall>p i e s. distinct (map fst s) \<longrightarrow> distinct (map fst (snd (scanWalkFn cfg p i e s)))"
    using scanWalkFn_distinct by blast
  with walk_preserves_aux(1)[of "\<lambda>s. distinct (map fst s)" "scanWalkFn cfg" st path node] assms
  show ?thesis by blast
qed

lemma walk_scan_hash:
  assumes "\<forall>x\<in>set st. Hash (snd x) = []"
  shows "\<forall>x\<in>set (snd (walk path node (scanWalkFn cfg) st)). Hash (snd x) = []"
proof -
  have "\<forall>p i e s. (\<forall>x\<in>set s. Hash (snd x) = []) \<longrightarrow>
          (\<forall>x\<in>set (snd (scanWalkFn cfg p i e s)). Hash (snd x) = [])"
    using scanWalkFn_hash by blast
  with walk_preserves_aux(1)[of "\<lambda>s. \<forall>x\<in>set s. Hash (snd x) = []" "scanWalkFn cfg" st path node]
    assms
  show ?thesis by blast
qed

section \<open>A walk and the record of its calls\<close>

lemma tracedLike_call:
  assumes "walkFn path info err st = (r, st')" and "\<And>x. err = Some x \<Longrightarrow> r = Failure x"
  shows "tracedLike (r, st') tr (traced walkFn path info err (st, tr))"
  using assms unfolding tracedLike_def traced_def by auto

lemma tracedLike_trans:
  assumes "tracedLike (r1, st1) tr (r1, st1, tr1)" and "\<And>x. r1 \<noteq> Failure x"
    and "tracedLike res tr1 tres"
  shows "tracedLike res tr tres"
proof -
  from assms(1) obtain c1 where c1: "tr1 = tr @ c1"
    and e1: "\<forall>c\<in>set c1. \<forall>x. snd (snd c) = Some x \<longrightarrow> r1 = Failure x"
    unfolding tracedLike_def by auto
  from assms(3) obtain c2 where c2: "tres = (fst res, snd res, tr1 @ c2)"
    and e2: "\<forall>c\<in>set c2. \<forall>x. snd (snd c) = Some x \<longrightarrow> fst res = Failure x"
    unfolding tracedLike_def by auto
  from e1 assms(2) have "\<forall>c\<in>set c1. \<forall>x. snd (snd c) \<noteq> Some x" by auto
  with e2 have "\<forall>c\<in>set (c1 @ c2). \<forall>x. snd (snd c) = Some x \<longrightarrow> fst res = Failure x"
    by auto
  moreover from c1 c2 have "tres = (fst res, snd res, tr @ (c1 @ c2))" by simp
  ultimately show ?thesis unfolding tracedLike_def by blast
qed

lemma tracedLike_eq:
  "tracedLike res tr tres \<Longrightarrow> \<exists>tr'. tres = (fst res, snd res, tr')"
  unfolding tracedLike_def by blast


lemma walk_traced_aux:
  fixes walkFn :: "'st WalkFunc"
  shows "passesErrors walkFn \<longrightarrow>
           (\<forall>tr. tracedLike (walk path node walkFn st) tr (walk path node (traced walkFn) (st, tr)))"
    and "passesErrors walkFn \<longrightarrow>
           (\<forall>tr. tracedLike (walk_names path entries walkFn st) tr
                   (walk_names path entries (traced walkFn) (st, tr)))"
proof (induction path node walkFn st and path entries walkFn st rule: walk_walk_names.induct)
  case (1 path e walkFn st)
  show ?case
  proof (intro impI allI)
    fix tr assume pe: "passesErrors walkFn"
    obtain r st' where r: "walkFn path None (Some e) st = (r, st')"
      by (cases "walkFn path None (Some e) st")
    with pe have "r = Failure e" unfolding passesErrors_def by (metis fst_conv)
    with r have "tracedLike (r, st') tr (traced walkFn path None (Some e) (st, tr))"
      by (intro tracedLike_call) auto
    with r show "tracedLike (walk path (StatFail e) walkFn st) tr
                   (walk path (StatFail e) (traced walkFn) (st, tr))" by simp
  qed
next
  case (2 path sz mt walkFn st)
  show ?case
  proof (intro impI allI)
    fix tr
    let ?i = "Some \<lparr>st_IsDir = False, st_Size = sz, st_ModTime = mt\<rparr>"
    obtain r st' where r: "walkFn path ?i None st = (r, st')"
      by (cases "walkFn path ?i None st")
    then have "tracedLike (r, st') tr (traced walkFn path ?i None (st, tr))"
      by (intro tracedLike_call) auto
    with r show "tracedLike (walk path (File sz mt) walkFn st) tr
                   (walk path (File sz mt) (traced walkFn) (st, tr))" by simp
  qed
next
  case (3 path sz mt e walkFn st)
  show ?case
  proof (intro impI allI)
    fix tr assume pe: "passesErrors walkFn"
    let ?i = "Some \<lparr>st_IsDir = True, st_Size = sz, st_ModTime = mt\<rparr>"
    obtain r st' where r: "walkFn path ?i (Some e) st = (r, st')"
      by (cases "walkFn path ?i (Some e) st")
    with pe have "r = Failure e" unfolding passesErrors_def by (metis fst_conv)
    with r have "tracedLike (r, st') tr (traced walkFn path ?i (Some e) (st, tr))"
      by (intro tracedLike_call) auto
    with r show "tracedLike (walk path (DirUnreadable sz mt e) walkFn st) tr
                   (walk path (DirUnreadable sz mt e) (traced walkFn) (st, tr))" by simp
  qed
next
  case (4 path sz mt entries walkFn st)
  show ?case
  proof (intro impI allI)
    fix tr assume pe: "passesErrors walkFn"
    let ?i = "Some \<lparr>st_IsDir = True, st_Size = sz, st_ModTime = mt\<rparr>"
    obtain r st' where r: "walkFn path ?i None st = (r, st')"
      by (cases "walkFn path ?i None st")
    let ?tr1 = "tr @ [(path, ?i, None :: fserror option)]"
    from r have t: "traced walkFn path ?i None (st, tr) = (r, st', ?tr1)"
      by (simp add: traced_def)
    from r have head: "tracedLike (r, st') tr (r, st', ?tr1)"
      using tracedLike_call[of walkFn path ?i None st r st' tr] t by simp
    show "tracedLike (walk path (Dir sz mt entries) walkFn st) tr
            (walk path (Dir sz mt entries) (traced walkFn) (st, tr))"
    proof (cases "r = RetNil")
      case True
      from 4[OF r[symmetric] True] pe
      have tl: "tracedLike (walk_names path entries walkFn st') ?tr1
              (walk_names path entries (traced walkFn) (st', ?tr1))" by blast
      from True have nf: "\<And>x. r \<noteq> Failure x" by simp
      have "tracedLike (walk_names path entries walkFn st') tr
              (walk_names path entries (traced walkFn) (st', ?tr1))"
        by (rule tracedLike_trans[OF head nf tl])
      with r t True show ?thesis by simp
    next
      case False
      with r t head show ?thesis by (cases r) simp_all
    qed
  qed
next
  case (5 path walkFn st)
  show ?case by (simp add: tracedLike_def)
next
  case (6 path name node rest walkFn st)
  show ?case
  proof (intro impI allI)
    fix tr assume pe: "passesErrors walkFn"
    obtain r st' where r: "walk (Join path name) node walkFn st = (r, st')"
      by (cases "walk (Join path name) node walkFn st")
    from 6(1) pe have "tracedLike (walk (Join path name) node walkFn st) tr
                         (walk (Join path name) node (traced walkFn) (st, tr))" by blast
    with r have h: "tracedLike (r, st') tr (walk (Join path name) node (traced walkFn) (st, tr))"
      by simp
    from tracedLike_eq[OF h]
    obtain tr1 where t: "walk (Join path name) node (traced walkFn) (st, tr) = (r, st', tr1)"
      by auto
    with h have head: "tracedLike (r, st') tr (r, st', tr1)" by simp
    show "tracedLike (walk_names path ((name, node) # rest) walkFn st) tr
            (walk_names path ((name, node) # rest) (traced walkFn) (st, tr))"
    proof (cases "r = RetNil \<or> (r = SkipDir \<and> \<not> entryIsFile node)")
      case True
      from True 6(2)[OF r[symmetric]] 6(3)[OF r[symmetric]] pe
      have tl: "tracedLike (walk_names path rest walkFn st') tr1
              (walk_names path rest (traced walkFn) (st', tr1))" by blast
      from True have nf: "\<And>x. r \<noteq> Failure x" by auto
      have "tracedLike (walk_names path rest walkFn st') tr
              (walk_names path rest (traced walkFn) (st', tr1))"
        by (rule tracedLike_trans[OF head nf tl])
      with r t True show ?thesis by auto
    next
      case False
      with r t head show ?thesis by (cases r) simp_all
    qed
  qed
qed

section \<open>The scan\<close>

lemma scanWalkFn_passesErrors: "passesErrors (scanWalkFn cfg)"
  unfolding passesErrors_def by simp

lemma Walk_snd: "snd (Walk root node walkFn st) = snd (walk root node walkFn st)"
  unfolding Walk_def by (cases "walk root node walkFn st"; cases "fst (walk root node walkFn st)") auto

lemma Walk_fst:
  "fst (Walk root node walkFn st) =
     (case fst (walk root node walkFn st) of Failure e \<Rightarrow> Some e | _ \<Rightarrow> None)"
  unfolding Walk_def by (cases "walk root node walkFn st"; cases "fst (walk root node walkFn st)") auto

lemma detectLoop_first_scan:
  "detectLoop xs [] newFiles = map (\<lambda>x. LogEvent CRIADO (fst x)) xs"
  by (induction xs) (auto simp: entryEvents_def)

lemma scanDirectory_ok:
  assumes "scanDirectory m fs = (None, m')"
  shows "files m' = snd (walk (WatchDir (config m)) fs (scanWalkFn (config m)) [])"
    and "logger m' = logger m @ detectLoop (files m') (files m) (files m')"
    and "m' = m\<lparr>logger := logger m', files := files m'\<rparr>"
proof -
  obtain r cur where w: "Walk (WatchDir (config m)) fs (scanWalkFn (config m)) [] = (r, cur)"
    by (cases "Walk (WatchDir (config m)) fs (scanWalkFn (config m)) []")
  with assms have r: "r = None"
    by (cases r) (simp_all add: scanDirectory_def)
  with w assms have m': "m' = (detectChanges m (files m) cur)\<lparr>files := cur\<rparr>"
    by (simp add: scanDirectory_def)
  then have f: "files m' = cur" by simp
  from w have "cur = snd (walk (WatchDir (config m)) fs (scanWalkFn (config m)) [])"
    using Walk_snd[of "WatchDir (config m)" fs "scanWalkFn (config m)" "[]"] by simp
  with f show "files m' = snd (walk (WatchDir (config m)) fs (scanWalkFn (config m)) [])" by simp
  from m' f show "logger m' = logger m @ detectLoop (files m') (files m) (files m')"
    by (simp add: detectChanges_def)
  from m' show "m' = m\<lparr>logger := logger m', files := files m'\<rparr>"
    by (simp add: detectChanges_def)
qed

lemma scanDirectory_ok_distinct:
  assumes "scanDirectory m fs = (None, m')"
  shows "distinct (map fst (files m'))"
  using scanDirectory_ok(1)[OF assms] walk_scan_distinct[of "[]"] by simp

lemma traced_scan_keys:
  assumes "keysFromCalls cfg s"
  shows "keysFromCalls cfg (snd (traced (scanWalkFn cfg) p i e s))"
proof -
  obtain st tr where s: "s = (st, tr)" by (cases s)
  show ?thesis
  proof (cases e)
    case (Some x)
    with s assms show ?thesis by (simp add: traced_def keysFromCalls_def)
  next
    case None
    show ?thesis
    proof (cases i)
      case n: None
      with None s assms show ?thesis by (simp add: traced_def keysFromCalls_def)
    next
      case (Some info)
      show ?thesis
      proof (cases "recordsEntry cfg p info")
        case True
        with Some None s assms show ?thesis
          by (auto simp: traced_def keysFromCalls_def recordsEntry_def dom_update)
      next
        case False
        with Some None s assms show ?thesis
          by (auto simp: traced_def keysFromCalls_def recordsEntry_def)
      qed
    qed
  qed
qed

lemma walk_scan_keys:
  "fst ` set (snd (walk root fs (scanWalkFn cfg) [])) =
     {p. \<exists>i. (p, Some i, None) \<in> set (walkCalls root fs (scanWalkFn cfg) []) \<and> recordsEntry cfg p i}"
proof -
  have step: "\<forall>p i e s. keysFromCalls cfg s \<longrightarrow> keysFromCalls cfg (snd (traced (scanWalkFn cfg) p i e s))"
    using traced_scan_keys by blast
  have init: "keysFromCalls cfg ([], [])" by (simp add: keysFromCalls_def)
  from walk_preserves_aux(1)[of "keysFromCalls cfg" "traced (scanWalkFn cfg)" "([], [])" root fs]
    step init
  have k: "keysFromCalls cfg (snd (walk root fs (traced (scanWalkFn cfg)) ([], [])))" by blast
  from walk_traced_aux(1)[of "scanWalkFn cfg" root fs "[]"] scanWalkFn_passesErrors[of cfg]
  have "tracedLike (walk root fs (scanWalkFn cfg) []) [] (walk root fs (traced (scanWalkFn cfg)) ([], []))"
    by blast
  then obtain calls where w: "walk root fs (traced (scanWalkFn cfg)) ([], []) =
      (fst (walk root fs (scanWalkFn cfg) []), snd (walk root fs (scanWalkFn cfg) []), calls)"
    unfolding tracedLike_def by auto
  then have c: "walkCalls root fs (scanWalkFn cfg) [] = calls"
    unfolding walkCalls_def using Walk_snd[of root fs "traced (scanWalkFn cfg)" "([], [])"] by simp
  from k w c show ?thesis by (simp add: keysFromCalls_def)
qed

lemma detectLoop_count_created_keys:
  assumes "distinct (map fst cur)"
  shows "count_list (detectLoop cur oldFiles cur) (LogEvent CRIADO path) =
           (if path \<in> fst ` set cur \<and> map_of oldFiles path = None then 1 else 0)"
proof (cases "path \<in> fst ` set cur")
  case True
  then obtain v where "map_of cur path = Some v"
    by (metis domD dom_map_of_conv_image_fst)
  from count_keys_distinct[OF assms this] True show ?thesis
    by (simp add: detectLoop_count_created)
next
  case False
  then have "count_list (map fst cur) path = 0" by (simp add: count_list_0_iff)
  with False show ?thesis by (simp add: detectLoop_count_created)
qed

lemma scanDirectory_walk_ok:
  assumes "Walk (WatchDir (config m)) fs (scanWalkFn (config m)) [] = (None, cur)"
  shows "scanDirectory m fs =
           (None, m\<lparr>logger := logger m @ detectLoop cur (files m) cur, files := cur\<rparr>)"
    and "distinct (map fst cur)"
proof -
  from assms show s: "scanDirectory m fs =
           (None, m\<lparr>logger := logger m @ detectLoop cur (files m) cur, files := cur\<rparr>)"
    by (simp add: scanDirectory_def detectChanges_def)
  from scanDirectory_ok_distinct[OF s] show "distinct (map fst cur)" by simp
qed

section \<open>Change detection\<close>

text \<open>
  Claim C5. A path that the new snapshot holds and the old one does not gets exactly one
  \<open>CRIADO\<close> call from \<open>detectChanges\<close>. So it is in every scan, whatever the state
  of the monitor: when the walk succeeds with the snapshot \<open>cur\<close>, \<open>scanDirectory\<close>
  succeeds and stores \<open>cur\<close>, whose paths are those of the entries that the walk
  visits and that are neither the log directory nor ignored files, and the number of
  \<open>CRIADO\<close> calls for a path grows by one when \<open>cur\<close> holds the path and the
  snapshot before does not, and does not grow otherwise. The first scan after
  construction is the one that \<open>Start\<close> runs on the new monitor: the logger then
  holds exactly one \<open>CRIADO\<close> call for every path of \<open>cur\<close>, in the order of the
  snapshot, and nothing else.
\<close>

theorem created_exactly_once:
  "(distinct (map fst newFiles) \<and> map_of newFiles path = Some newInfo \<and>
      map_of oldFiles path = None \<longrightarrow>
      count_list (logger (detectChanges m oldFiles newFiles)) (LogEvent CRIADO path) =
        count_list (logger m) (LogEvent CRIADO path) + 1) \<and>
   (Walk (WatchDir (config m)) fs (scanWalkFn (config m)) [] = (None, cur) \<longrightarrow>
      fst (scanDirectory m fs) = None \<and>
      files (snd (scanDirectory m fs)) = cur \<and>
      fst ` set cur =
        {p. \<exists>i. (p, Some i, None) \<in> set (walkCalls (WatchDir (config m)) fs (scanWalkFn (config m)) []) \<and>
                 recordsEntry (config m) p i} \<and>
      (\<forall>p. count_list (logger (snd (scanDirectory m fs))) (LogEvent CRIADO p) =
             count_list (logger m) (LogEvent CRIADO p) +
             (if p \<in> fst ` set cur \<and> map_of (files m) p = None then 1 else 0))) \<and>
   (Walk (WatchDir cfg) fs (scanWalkFn cfg) [] = (None, cur) \<longrightarrow>
      distinct (map fst cur) \<and>
      Start (NewFileMonitor cfg) fs =
        (None, \<lparr>config = cfg, logger = map (\<lambda>x. LogEvent CRIADO (fst x)) cur, files = cur,
                 isRunnig = True, stopChan = ChanOpen, loops = 1\<rparr>))"
proof (intro conjI impI allI)
  assume a: "distinct (map fst newFiles) \<and> map_of newFiles path = Some newInfo \<and>
      map_of oldFiles path = None"
  then have "count_list (map fst newFiles) path = 1"
    using count_keys_distinct[of newFiles path newInfo] by simp
  with a show "count_list (logger (detectChanges m oldFiles newFiles)) (LogEvent CRIADO path) =
        count_list (logger m) (LogEvent CRIADO path) + 1"
    by (simp add: detectChanges_def detectLoop_count_created)
next
  assume w: "Walk (WatchDir (config m)) fs (scanWalkFn (config m)) [] = (None, cur)"
  note s = scanDirectory_walk_ok[OF w]
  from s(1) show "fst (scanDirectory m fs) = None" by simp
  from s(1) show "files (snd (scanDirectory m fs)) = cur" by simp
  from w have "cur = snd (walk (WatchDir (config m)) fs (scanWalkFn (config m)) [])"
    using Walk_snd[of "WatchDir (config m)" fs "scanWalkFn (config m)" "[]"] by simp
  with walk_scan_keys[of "WatchDir (config m)" fs "config m"]
  show "fst ` set cur =
        {p. \<exists>i. (p, Some i, None) \<in> set (walkCalls (WatchDir (config m)) fs (scanWalkFn (config m)) []) \<and>
                 recordsEntry (config m) p i}" by simp
  fix p
  from s(1) detectLoop_count_created_keys[OF s(2), of "files m" p]
  show "count_list (logger (snd (scanDirectory m fs))) (LogEvent CRIADO p) =
             count_list (logger m) (LogEvent CRIADO p) +
             (if p \<in> fst ` set cur \<and> map_of (files m) p = None then 1 else 0)"
    by simp
next
  assume w: "Walk (WatchDir cfg) fs (scanWalkFn cfg) [] = (None, cur)"
  let ?m = "(NewFileMonitor cfg)\<lparr>isRunnig := True\<rparr>"
  from w have w': "Walk (WatchDir (config ?m)) fs (scanWalkFn (config ?m)) [] = (None, cur)"
    by (simp add: NewFileMonitor_def)
  note s = scanDirectory_walk_ok[OF w']
  from s(2) show "distinct (map fst cur)" .
  from s(1) show "Start (NewFileMonitor cfg) fs =
        (None, \<lparr>config = cfg, logger = map (\<lambda>x. LogEvent CRIADO (fst x)) cur, files = cur,
                 isRunnig = True, stopChan = ChanOpen, loops = 1\<rparr>)"
    by (simp add: Start_def Start_enter_def Start_finish_def NewFileMonitor_def detectLoop_first_scan)
qed

theorem created_exactly_once_witness:
  "(distinct (map fst [(''a.txt'', \<lparr>Path = ''a.txt'', Size = 10, ModTime = 1, Hash = [], IsDir = False\<rparr>)]) \<and>
    map_of [(''a.txt'', \<lparr>Path = ''a.txt'', Size = 10, ModTime = 1, Hash = [], IsDir = False\<rparr>)] ''a.txt'' =
      Some \<lparr>Path = ''a.txt'', Size = 10, ModTime = 1, Hash = [], IsDir = False\<rparr> \<and>
    map_of ([] :: snapshot) ''a.txt'' = None) \<and>
   count_list
     (logger (detectChanges
        (snd (Start (NewFileMonitor (LoadConfig emptyEnv)) (Dir 4096 0 [(''a.txt'', File 10 1)]))) []
        [(''a.txt'', \<lparr>Path = ''a.txt'', Size = 10, ModTime = 1, Hash = [], IsDir = False\<rparr>)]))
     (LogEvent CRIADO ''a.txt'') = 2 \<and>
   Walk (WatchDir (LoadConfig emptyEnv)) (Dir 4096 0 [(''a.txt'', File 10 1)])
        (scanWalkFn (LoadConfig emptyEnv)) [] =
     (None, [(''.'', \<lparr>Path = ''.'', Size = 4096, ModTime = 0, Hash = [], IsDir = True\<rparr>),
             (''a.txt'', \<lparr>Path = ''a.txt'', Size = 10, ModTime = 1, Hash = [], IsDir = False\<rparr>)]) \<and>
   Start (NewFileMonitor (LoadConfig emptyEnv)) (Dir 4096 0 [(''a.txt'', File 10 1)]) =
     (None, \<lparr>config = LoadConfig emptyEnv,
              logger = [LogEvent CRIADO ''.'', LogEvent CRIADO ''a.txt''],
              files = [(''.'', \<lparr>Path = ''.'', Size = 4096, ModTime = 0, Hash = [], IsDir = True\<rparr>),
                       (''a.txt'', \<lparr>Path = ''a.txt'', Size = 10, ModTime = 1, Hash = [], IsDir = False\<rparr>)],
              isRunnig = True, stopChan = ChanOpen, loops = 1\<rparr>) \<and>
   Walk (WatchDir (config (snd (Start (NewFileMonitor (LoadConfig emptyEnv))
                                  (Dir 4096 0 [(''a.txt'', File 10 1)])))))
        (Dir 4096 5 [(''a.txt'', File 10 1), (''b.txt'', File 5 5)])
        (scanWalkFn (config (snd (Start (NewFileMonitor (LoadConfig emptyEnv))
                                    (Dir 4096 0 [(''a.txt'', File 10 1)]))))) [] =
     (None, [(''.'', \<lparr>Path = ''.'', Size = 4096, ModTime = 5, Hash = [], IsDir = True\<rparr>),
             (''a.txt'', \<lparr>Path = ''a.txt'', Size = 10, ModTime = 1, Hash = [], IsDir = False\<rparr>),
             (''b.txt'', \<lparr>Path = ''b.txt'', Size = 5, ModTime = 5, Hash = [], IsDir = False\<rparr>)]) \<and>
   count_list
     (logger (snd (scanDirectory
        (snd (Start (NewFileMonitor (LoadConfig emptyEnv)) (Dir 4096 0 [(''a.txt'', File 10 1)])))
        (Dir 4096 5 [(''a.txt'', File 10 1), (''b.txt'', File 5 5)]))))
     (LogEvent CRIADO ''b.txt'') = 1 \<and>
   count_list
     (logger (snd (scanDirectory
        (snd (Start (NewFileMonitor (LoadConfig emptyEnv)) (Dir 4096 0 [(''a.txt'', File 10 1)])))
        (Dir 4096 5 [(''a.txt'', File 10 1), (''b.txt'', File 5 5)]))))
     (LogEvent CRIADO ''a.txt'') = 1"
proof -
  let ?fi = "\<lparr>Path = ''a.txt'', Size = 10, ModTime = 1, Hash = [], IsDir = False\<rparr>"
  let ?cfg = "LoadConfig emptyEnv"
  let ?m0 = "NewFileMonitor ?cfg"
  let ?fs1 = "Dir 4096 0 [(''a.txt'', File 10 1)]"
  let ?fs2 = "Dir 4096 5 [(''a.txt'', File 10 1), (''b.txt'', File 5 5)]"
  let ?cur1 = "[(''.'', \<lparr>Path = ''.'', Size = 4096, ModTime = 0, Hash = [], IsDir = True\<rparr>),
                (''a.txt'', ?fi)]"
  let ?cur2 = "[(''.'', \<lparr>Path = ''.'', Size = 4096, ModTime = 5, Hash = [], IsDir = True\<rparr>),
                (''a.txt'', ?fi),
                (''b.txt'', \<lparr>Path = ''b.txt'', Size = 5, ModTime = 5, Hash = [], IsDir = False\<rparr>)]"
  let ?m1 = "snd (Start ?m0 ?fs1)"
  have h1: "distinct (map fst [(''a.txt'', ?fi)]) \<and> map_of [(''a.txt'', ?fi)] ''a.txt'' = Some ?fi \<and>
            map_of ([] :: snapshot) ''a.txt'' = None"
    by simp
  have w1: "Walk (WatchDir ?cfg) ?fs1 (scanWalkFn ?cfg) [] = (None, ?cur1)" by code_simp
  have w2: "Walk (WatchDir (config ?m1)) ?fs2 (scanWalkFn (config ?m1)) [] = (None, ?cur2)"
    by code_simp
  have la: "count_list (logger ?m1) (LogEvent CRIADO ''a.txt'') = 1" by code_simp
  have lb: "count_list (logger ?m1) (LogEvent CRIADO ''b.txt'') = 0" by code_simp
  have ka: "\<not> (''a.txt'' \<in> fst ` set ?cur2 \<and> map_of (files ?m1) ''a.txt'' = None)" by code_simp
  have kb: "''b.txt'' \<in> fst ` set ?cur2 \<and> map_of (files ?m1) ''b.txt'' = None" by code_simp
  have e: "map (\<lambda>x. LogEvent CRIADO (fst x)) ?cur1 = [LogEvent CRIADO ''.'', LogEvent CRIADO ''a.txt'']"
    by simp
  from created_exactly_once[where newFiles="[(''a.txt'', ?fi)]" and path="''a.txt''" and newInfo="?fi"
         and oldFiles="[]" and m="?m1" and fs="?fs2" and cur="?cur2"] h1 w2
  have c1: "count_list (logger (detectChanges ?m1 [] [(''a.txt'', ?fi)])) (LogEvent CRIADO ''a.txt'') =
          count_list (logger ?m1) (LogEvent CRIADO ''a.txt'') + 1"
    and c2: "\<forall>p. count_list (logger (snd (scanDirectory ?m1 ?fs2))) (LogEvent CRIADO p) =
             count_list (logger ?m1) (LogEvent CRIADO p) +
             (if p \<in> fst ` set ?cur2 \<and> map_of (files ?m1) p = None then 1 else 0)"
    by blast+
  from created_exactly_once[where cfg="?cfg" and fs="?fs1" and cur="?cur1"] w1
  have c3: "Start ?m0 ?fs1 =
        (None, \<lparr>config = ?cfg, logger = map (\<lambda>x. LogEvent CRIADO (fst x)) ?cur1, files = ?cur1,
                 isRunnig = True, stopChan = ChanOpen, loops = 1\<rparr>)"
    by blast
  from c2[rule_format, of "''a.txt''"]
  have ca: "count_list (logger (snd (scanDirectory ?m1 ?fs2))) (LogEvent CRIADO ''a.txt'') = 1"
    by (simp only: ka la) simp
  from c2[rule_format, of "''b.txt''"]
  have cb: "count_list (logger (snd (scanDirectory ?m1 ?fs2))) (LogEvent CRIADO ''b.txt'') = 1"
    by (simp only: kb lb) simp
  from c1 la have c1': "count_list (logger (detectChanges ?m1 [] [(''a.txt'', ?fi)])) (LogEvent CRIADO ''a.txt'') = 2"
    by simp
  from c3 e have c3': "Start ?m0 ?fs1 =
        (None, \<lparr>config = ?cfg, logger = [LogEvent CRIADO ''.'', LogEvent CRIADO ''a.txt''], files = ?cur1,
                 isRunnig = True, stopChan = ChanOpen, loops = 1\<rparr>)"
    by (simp only:)
  from h1 c1' w1 c3' w2 cb ca show ?thesis by blast
qed

text \<open>
  Claim C6. For a path that both snapshots hold, \<open>detectChanges\<close> makes one
  \<open>MODIFICADO\<close> call when the new entry is not a directory and the size differs, or
  the modification time differs, or both fingerprints are non-empty and differ; it
  makes none otherwise, so none for a directory.
\<close>

theorem modified_iff_changed:
  assumes "distinct (map fst newFiles)"
    and "map_of newFiles path = Some newInfo"
    and "map_of oldFiles path = Some oldInfo"
  shows "count_list (logger (detectChanges m oldFiles newFiles)) (LogEvent MODIFICADO path) =
           count_list (logger m) (LogEvent MODIFICADO path) +
           (if \<not> IsDir newInfo \<and>
               (Size newInfo \<noteq> Size oldInfo \<or> ModTime newInfo \<noteq> ModTime oldInfo \<or>
                (Hash newInfo \<noteq> [] \<and> Hash oldInfo \<noteq> [] \<and> Hash newInfo \<noteq> Hash oldInfo))
            then 1 else 0)"
  using assms(3)
  by (simp add: detectChanges_def detectLoop_count_modified[OF assms(1,2)] entryEvents_def)

theorem modified_iff_changed_witness:
  "distinct (map fst [(''a.txt'', \<lparr>Path = ''a.txt'', Size = 0, ModTime = 1, Hash = [], IsDir = False\<rparr>)]) \<and>
   map_of [(''a.txt'', \<lparr>Path = ''a.txt'', Size = 0, ModTime = 1, Hash = [], IsDir = False\<rparr>)] ''a.txt'' =
      Some \<lparr>Path = ''a.txt'', Size = 0, ModTime = 1, Hash = [], IsDir = False\<rparr> \<and>
   map_of [(''a.txt'', \<lparr>Path = ''a.txt'', Size = 10, ModTime = 1, Hash = [], IsDir = False\<rparr>)] ''a.txt'' =
      Some \<lparr>Path = ''a.txt'', Size = 10, ModTime = 1, Hash = [], IsDir = False\<rparr> \<and>
   count_list
     (logger (detectChanges (NewFileMonitor (LoadConfig emptyEnv))
        [(''a.txt'', \<lparr>Path = ''a.txt'', Size = 10, ModTime = 1, Hash = [], IsDir = False\<rparr>)]
        [(''a.txt'', \<lparr>Path = ''a.txt'', Size = 0, ModTime = 1, Hash = [], IsDir = False\<rparr>)]))
     (LogEvent MODIFICADO ''a.txt'') = 1 \<and>
   distinct (map fst [(''d'', \<lparr>Path = ''d'', Size = 4096, ModTime = 2, Hash = [], IsDir = True\<rparr>)]) \<and>
   map_of [(''d'', \<lparr>Path = ''d'', Size = 4096, ModTime = 2, Hash = [], IsDir = True\<rparr>)] ''d'' =
      Some \<lparr>Path = ''d'', Size = 4096, ModTime = 2, Hash = [], IsDir = True\<rparr> \<and>
   map_of [(''d'', \<lparr>Path = ''d'', Size = 4096, ModTime = 1, Hash = [], IsDir = True\<rparr>)] ''d'' =
      Some \<lparr>Path = ''d'', Size = 4096, ModTime = 1, Hash = [], IsDir = True\<rparr> \<and>
   count_list
     (logger (detectChanges (NewFileMonitor (LoadConfig emptyEnv))
        [(''d'', \<lparr>Path = ''d'', Size = 4096, ModTime = 1, Hash = [], IsDir = True\<rparr>)]
        [(''d'', \<lparr>Path = ''d'', Size = 4096, ModTime = 2, Hash = [], IsDir = True\<rparr>)]))
     (LogEvent MODIFICADO ''d'') = 0"
proof -
  let ?new = "\<lparr>Path = ''a.txt'', Size = 0, ModTime = 1, Hash = [], IsDir = False\<rparr>"
  let ?old = "\<lparr>Path = ''a.txt'', Size = 10, ModTime = 1, Hash = [], IsDir = False\<rparr>"
  let ?dnew = "\<lparr>Path = ''d'', Size = 4096, ModTime = 2, Hash = [], IsDir = True\<rparr>"
  let ?dold = "\<lparr>Path = ''d'', Size = 4096, ModTime = 1, Hash = [], IsDir = True\<rparr>"
  let ?m = "NewFileMonitor (LoadConfig emptyEnv)"
  have h1: "distinct (map fst [(''a.txt'', ?new)])" by simp
  have h2: "map_of [(''a.txt'', ?new)] ''a.txt'' = Some ?new" by simp
  have h3: "map_of [(''a.txt'', ?old)] ''a.txt'' = Some ?old" by simp
  have d1: "distinct (map fst [(''d'', ?dnew)])" by simp
  have d2: "map_of [(''d'', ?dnew)] ''d'' = Some ?dnew" by simp
  have d3: "map_of [(''d'', ?dold)] ''d'' = Some ?dold" by simp
  have l0: "count_list (logger ?m) (LogEvent MODIFICADO p) = 0" for p
    by (simp add: NewFileMonitor_def)
  from modified_iff_changed[OF h1 h2 h3, of ?m] l0
  have a: "count_list (logger (detectChanges ?m [(''a.txt'', ?old)] [(''a.txt'', ?new)]))
             (LogEvent MODIFICADO ''a.txt'') = 1" by simp
  from modified_iff_changed[OF d1 d2 d3, of ?m] l0
  have b: "count_list (logger (detectChanges ?m [(''d'', ?dold)] [(''d'', ?dnew)]))
             (LogEvent MODIFICADO ''d'') = 0" by simp
  from a b h1 h2 h3 d1 d2 d3 show ?thesis by blast
qed

text \<open>
  Claim C1. The loop over \<open>oldFiles\<close> stands inside the loop over \<open>newFiles\<close>, so
  a deleted path gets one \<open>EXCLUIDO\<close> call for every entry of the new snapshot
  (\<open>detectLoop_count_deleted\<close>). With the files \<open>a.txt\<close> and \<open>b.txt\<close> in the first
  scan and \<open>a.txt\<close> alone in the second, the new snapshot has the two entries \<open>.\<close>
  and \<open>a.txt\<close>, and the deletion of \<open>b.txt\<close> is logged twice; against an empty new
  snapshot no deletion is logged at all.
\<close>

theorem deleted_repeated_per_new_entry:
  "logger (snd (scanDirectory
             (snd (scanDirectory (NewFileMonitor (LoadConfig emptyEnv))
                     (Dir 4096 1 [(''a.txt'', File 10 1), (''b.txt'', File 5 1)])))
             (Dir 4096 2 [(''a.txt'', File 10 1)]))) =
     [LogEvent CRIADO ''.'', LogEvent CRIADO ''a.txt'', LogEvent CRIADO ''b.txt'',
      LogEvent EXCLUIDO ''b.txt'', LogEvent EXCLUIDO ''b.txt''] \<and>
   logger (detectChanges (NewFileMonitor (LoadConfig emptyEnv))
             [(''b.txt'', \<lparr>Path = ''b.txt'', Size = 5, ModTime = 1, Hash = [], IsDir = False\<rparr>)] []) = []"
  by code_simp

section \<open>Errors during a scan\<close>

lemma walkCalls_error:
  assumes pe: "passesErrors walkFn"
    and c: "(path, info, Some e) \<in> set (walkCalls root node walkFn st)"
  shows "fst (walk root node walkFn st) = Failure e"
proof -
  from walk_traced_aux(1)[of walkFn root node st] pe
  have "tracedLike (walk root node walkFn st) [] (walk root node (traced walkFn) (st, []))"
    by blast
  then obtain calls where w: "walk root node (traced walkFn) (st, []) =
        (fst (walk root node walkFn st), snd (walk root node walkFn st), calls)"
    and e: "\<forall>c\<in>set calls. \<forall>x. snd (snd c) = Some x \<longrightarrow> fst (walk root node walkFn st) = Failure x"
    unfolding tracedLike_def by auto
  from w have "walkCalls root node walkFn st = calls"
    unfolding walkCalls_def using Walk_snd[of root node "traced walkFn" "(st, [])"] by simp
  with c e show ?thesis by fastforce
qed

lemma scanDirectory_failed:
  assumes "fst (walk (WatchDir (config m)) fs (scanWalkFn (config m)) []) = Failure e"
  shows "scanDirectory m fs = (Some e, m\<lparr>logger := logger m @ [LogScanError e]\<rparr>)"
proof -
  obtain st' where "walk (WatchDir (config m)) fs (scanWalkFn (config m)) [] = (Failure e, st')"
    using assms by (cases "walk (WatchDir (config m)) fs (scanWalkFn (config m)) []") simp
  then show ?thesis by (simp add: scanDirectory_def Walk_def)
qed

text \<open>
  Claim C8. When the walk calls the callback with an error for any entry (a failed
  \<open>Lstat\<close>, or a directory that cannot be listed), \<open>scanDirectory\<close> returns that
  error; the monitor afterwards differs from the monitor before only by the one
  \<open>Log\<close> call that reports the error: the stored snapshot is the old one and no
  \<open>LogEvent\<close> call was made.
\<close>

theorem scan_aborts_on_stat_error:
  assumes "(path, info, Some e) \<in> set (walkCalls (WatchDir (config m)) fs (scanWalkFn (config m)) [])"
  shows "scanDirectory m fs = (Some e, m\<lparr>logger := logger m @ [LogScanError e]\<rparr>) \<and>
         files (snd (scanDirectory m fs)) = files m \<and>
         (\<forall>k p. count_list (logger (snd (scanDirectory m fs))) (LogEvent k p) =
                 count_list (logger m) (LogEvent k p))"
proof -
  have "scanDirectory m fs = (Some e, m\<lparr>logger := logger m @ [LogScanError e]\<rparr>)"
    by (rule scanDirectory_failed, rule walkCalls_error[OF scanWalkFn_passesErrors assms])
  then show ?thesis by simp
qed

theorem scan_aborts_on_stat_error_witness:
  "(''b'', None, Some EACCES) \<in>
     set (walkCalls (WatchDir (config (NewFileMonitor (LoadConfig emptyEnv))))
            (Dir 4096 3 [(''a.txt'', File 10 1), (''b'', StatFail EACCES), (''c.txt'', File 7 2)])
            (scanWalkFn (config (NewFileMonitor (LoadConfig emptyEnv)))) []) \<and>
   scanDirectory (NewFileMonitor (LoadConfig emptyEnv))
     (Dir 4096 3 [(''a.txt'', File 10 1), (''b'', StatFail EACCES), (''c.txt'', File 7 2)]) =
   (Some EACCES, (NewFileMonitor (LoadConfig emptyEnv))\<lparr>logger := [LogScanError EACCES]\<rparr>)"
proof -
  let ?m = "NewFileMonitor (LoadConfig emptyEnv)"
  let ?fs = "Dir 4096 3 [(''a.txt'', File 10 1), (''b'', StatFail EACCES), (''c.txt'', File 7 2)]"
  have h: "(''b'', None, Some EACCES) \<in> set (walkCalls (WatchDir (config ?m)) ?fs (scanWalkFn (config ?m)) [])"
    by code_simp
  have l: "logger ?m = []" by (simp add: NewFileMonitor_def)
  from scan_aborts_on_stat_error[OF h] l h show ?thesis by simp
qed

lemma scanDirectory_failed_conv:
  assumes "fst (scanDirectory m fs) = Some e"
  shows "scanDirectory m fs = (Some e, m\<lparr>logger := logger m @ [LogScanError e]\<rparr>)"
proof -
  obtain r cur where w: "Walk (WatchDir (config m)) fs (scanWalkFn (config m)) [] = (r, cur)"
    by (cases "Walk (WatchDir (config m)) fs (scanWalkFn (config m)) []")
  with assms show ?thesis by (cases r) (simp_all add: scanDirectory_def)
qed

text \<open>
  Claim C4. When \<open>Start\<close> is called on a monitor that is not running and its scan
  fails, \<open>Start\<close> returns the error of the scan, the flag is false again, no loop was
  started, and the monitor is the one before the call but for the logged error.
\<close>

theorem start_rolls_back_on_scan_error:
  assumes "\<not> isRunnig m" and "fst (scanDirectory (m\<lparr>isRunnig := True\<rparr>) fs) = Some e"
  shows "Start m fs = (Some (ScanError e), m\<lparr>logger := logger m @ [LogScanError e]\<rparr>) \<and>
         \<not> isRunnig (snd (Start m fs)) \<and> loops (snd (Start m fs)) = loops m \<and>
         files (snd (Start m fs)) = files m \<and> stopChan (snd (Start m fs)) = stopChan m"
proof -
  from scanDirectory_failed_conv[OF assms(2)] assms(1)
  have "Start m fs = (Some (ScanError e), m\<lparr>logger := logger m @ [LogScanError e]\<rparr>)"
    by (simp add: Start_def Start_enter_def Start_finish_def)
  with assms(1) show ?thesis by simp
qed

theorem start_rolls_back_on_scan_error_witness:
  "\<not> isRunnig (NewFileMonitor (LoadConfig emptyEnv)) \<and>
   fst (scanDirectory ((NewFileMonitor (LoadConfig emptyEnv))\<lparr>isRunnig := True\<rparr>) (StatFail ENOENT)) =
     Some ENOENT \<and>
   Start (NewFileMonitor (LoadConfig emptyEnv)) (StatFail ENOENT) =
     (Some (ScanError ENOENT), (NewFileMonitor (LoadConfig emptyEnv))\<lparr>logger := [LogScanError ENOENT]\<rparr>)"
proof -
  let ?m = "NewFileMonitor (LoadConfig emptyEnv)"
  have h1: "\<not> isRunnig ?m" by (simp add: NewFileMonitor_def)
  have h2: "fst (scanDirectory (?m\<lparr>isRunnig := True\<rparr>) (StatFail ENOENT)) = Some ENOENT"
    by code_simp
  have l: "logger ?m = []" by (simp add: NewFileMonitor_def)
  from start_rolls_back_on_scan_error[OF h1 h2] l h1 h2 show ?thesis by simp
qed

section \<open>Start on a running monitor, and concurrent callers\<close>

lemma scanDirectory_keeps:
  "isRunnig (snd (scanDirectory m fs)) = isRunnig m"
  "loops (snd (scanDirectory m fs)) = loops m"
  "stopChan (snd (scanDirectory m fs)) = stopChan m"
  "config (snd (scanDirectory m fs)) = config m"
  by (cases "Walk (WatchDir (config m)) fs (scanWalkFn (config m)) []";
      cases "fst (Walk (WatchDir (config m)) fs (scanWalkFn (config m)) [])";
      simp add: scanDirectory_def detectChanges_def)+














section \<open>Fingerprints\<close>

lemma scanDirectory_hash:
  assumes "\<forall>x\<in>set (files m). Hash (snd x) = []"
  shows "\<forall>x\<in>set (files (snd (scanDirectory m fs))). Hash (snd x) = []"
proof (cases "fst (scanDirectory m fs)")
  case None
  then have "scanDirectory m fs = (None, snd (scanDirectory m fs))" by (metis prod.collapse)
  from scanDirectory_ok(1)[OF this] walk_scan_hash[of "[]"] show ?thesis by simp
next
  case (Some e)
  from scanDirectory_failed_conv[OF this] assms show ?thesis by simp
qed

lemma Start_files:
  "files (snd (Start m fs)) = files m \<or>
   files (snd (Start m fs)) = files (snd (scanDirectory (m\<lparr>isRunnig := True\<rparr>) fs))"
  by (cases "scanDirectory (m\<lparr>isRunnig := True\<rparr>) fs";
      cases "fst (scanDirectory (m\<lparr>isRunnig := True\<rparr>) fs)")
     (simp_all add: Start_def Start_enter_def Start_finish_def)

lemma Start_hash:
  assumes "\<forall>x\<in>set (files m). Hash (snd x) = []"
  shows "\<forall>x\<in>set (files (snd (Start m fs))). Hash (snd x) = []"
proof -
  from assms have "\<forall>x\<in>set (files (m\<lparr>isRunnig := True\<rparr>)). Hash (snd x) = []" by simp
  from scanDirectory_hash[OF this, of fs] assms Start_files[of m fs] show ?thesis by metis
qed

lemma Stop_files: "Stop m = Inr m' \<Longrightarrow> files m' = files m"
  by (auto simp: Stop_def split: if_splits chan.splits)

lemma monitorLoop_iter_files:
  "files (snd (monitorLoop_iter m tick pick fs)) = files m \<or>
   files (snd (monitorLoop_iter m tick pick fs)) = files (snd (scanDirectory m fs))"
  by (simp add: monitorLoop_iter_def split: option.splits select_case.splits)

lemma monitorLoop_iter_hash:
  assumes "\<forall>x\<in>set (files m). Hash (snd x) = []"
  shows "\<forall>x\<in>set (files (snd (monitorLoop_iter m tick pick fs))). Hash (snd x) = []"
  using scanDirectory_hash[OF assms, of fs] assms monitorLoop_iter_files[of m tick pick fs]
  by metis

lemma run_hash:
  "\<forall>x\<in>set (files m). Hash (snd x) = [] \<Longrightarrow> \<forall>x\<in>set (files (run ops m)). Hash (snd x) = []"
proof (induction ops m rule: run.induct)
  case (1 m)
  then show ?case by simp
next
  case (2 fs ops m)
  from 2(1)[OF Start_hash[OF 2(2)]] show ?case by simp
next
  case (3 ops m)
  show ?case
  proof (cases "Stop m")
    case (Inl p)
    with 3(2) show ?thesis by simp
  next
    case (Inr m')
    with 3(2) Stop_files[OF Inr] have "\<forall>x\<in>set (files m'). Hash (snd x) = []" by simp
    from 3(1)[OF Inr this] Inr show ?thesis by simp
  qed
next
  case (4 tick pick fs ops m)
  show ?case
  proof (cases "loops m = 0")
    case True
    with 4(1)[OF True 4(3)] show ?thesis by simp
  next
    case False
    with 4(2)[OF False monitorLoop_iter_hash[OF 4(3)]] show ?thesis by simp
  qed
qed

text \<open>
  Claim C10. The callback of the scan leaves \<open>Hash\<close> empty and nothing else writes a
  snapshot: every entry of the stored snapshot has an empty fingerprint, after any
  sequence of \<open>Start\<close>, \<open>Stop\<close> and passes of the loop on a new monitor, and every
  entry of the snapshot that a successful scan stores has one. So in every scan a path
  held by both snapshots gets a \<open>MODIFICADO\<close> call exactly when the new entry is not a
  directory and the size or the modification time differs.
\<close>

theorem scan_records_no_fingerprint:
  "(\<forall>x\<in>set (files (run ops (NewFileMonitor cfg))). Hash (snd x) = []) \<and>
   (scanDirectory m fs = (None, m') \<longrightarrow> (\<forall>x\<in>set (files m'). Hash (snd x) = [])) \<and>
   (scanDirectory m fs = (None, m') \<and> map_of (files m') path = Some newInfo \<and>
    map_of (files m) path = Some oldInfo \<longrightarrow>
      count_list (logger m') (LogEvent MODIFICADO path) =
        count_list (logger m) (LogEvent MODIFICADO path) +
        (if \<not> IsDir newInfo \<and>
            (Size newInfo \<noteq> Size oldInfo \<or> ModTime newInfo \<noteq> ModTime oldInfo)
         then 1 else 0))"
proof (intro conjI impI)
  have "\<forall>x\<in>set (files (NewFileMonitor cfg)). Hash (snd x) = []"
    by (simp add: NewFileMonitor_def)
  then show "\<forall>x\<in>set (files (run ops (NewFileMonitor cfg))). Hash (snd x) = []"
    by (rule run_hash)
next
  assume s: "scanDirectory m fs = (None, m')"
  from scanDirectory_ok(1)[OF s] walk_scan_hash[of "[]"]
  show "\<forall>x\<in>set (files m'). Hash (snd x) = []" by simp
next
  assume a: "scanDirectory m fs = (None, m') \<and> map_of (files m') path = Some newInfo \<and>
    map_of (files m) path = Some oldInfo"
  then have s: "scanDirectory m fs = (None, m')" and n: "map_of (files m') path = Some newInfo"
    and ol: "map_of (files m) path = Some oldInfo" by simp_all
  from scanDirectory_ok(1)[OF s] walk_scan_hash[of "[]"]
  have "\<forall>x\<in>set (files m'). Hash (snd x) = []" by simp
  moreover from n have "(path, newInfo) \<in> set (files m')" by (rule map_of_SomeD)
  ultimately have h: "Hash newInfo = []" by fastforce
  from scanDirectory_ok(2)[OF s]
  have "count_list (logger m') (LogEvent MODIFICADO path) =
          count_list (logger m) (LogEvent MODIFICADO path) +
          count_list (entryEvents (files m) path newInfo) (LogEvent MODIFICADO path)"
    by (simp add: detectLoop_count_modified[OF scanDirectory_ok_distinct[OF s] n])
  with ol h show "count_list (logger m') (LogEvent MODIFICADO path) =
        count_list (logger m) (LogEvent MODIFICADO path) +
        (if \<not> IsDir newInfo \<and>
            (Size newInfo \<noteq> Size oldInfo \<or> ModTime newInfo \<noteq> ModTime oldInfo)
         then 1 else 0)"
    by (simp add: entryEvents_def)
qed

theorem scan_records_no_fingerprint_witness:
  "scanDirectory
     (snd (scanDirectory (NewFileMonitor (LoadConfig emptyEnv)) (Dir 4096 1 [(''a.txt'', File 10 1)])))
     (Dir 4096 1 [(''a.txt'', File 0 2)]) =
   (None, snd (scanDirectory
     (snd (scanDirectory (NewFileMonitor (LoadConfig emptyEnv)) (Dir 4096 1 [(''a.txt'', File 10 1)])))
     (Dir 4096 1 [(''a.txt'', File 0 2)]))) \<and>
   files (run [OpStart (Dir 4096 1 [(''a.txt'', File 10 1)])] (NewFileMonitor (LoadConfig emptyEnv))) =
     [(''.'', \<lparr>Path = ''.'', Size = 4096, ModTime = 1, Hash = [], IsDir = True\<rparr>),
      (''a.txt'', \<lparr>Path = ''a.txt'', Size = 10, ModTime = 1, Hash = [], IsDir = False\<rparr>)] \<and>
   Hash (snd (files (run [OpStart (Dir 4096 1 [(''a.txt'', File 10 1)])]
                      (NewFileMonitor (LoadConfig emptyEnv))) ! 1)) = [] \<and>
   count_list
     (logger (snd (scanDirectory
        (snd (scanDirectory (NewFileMonitor (LoadConfig emptyEnv)) (Dir 4096 1 [(''a.txt'', File 10 1)])))
        (Dir 4096 1 [(''a.txt'', File 0 2)]))))
     (LogEvent MODIFICADO ''a.txt'') = 1"
proof -
  let ?m0 = "NewFileMonitor (LoadConfig emptyEnv)"
  let ?m1 = "snd (scanDirectory ?m0 (Dir 4096 1 [(''a.txt'', File 10 1)]))"
  let ?fs = "Dir 4096 1 [(''a.txt'', File 0 2)]"
  let ?new = "\<lparr>Path = ''a.txt'', Size = 0, ModTime = 2, Hash = [], IsDir = False\<rparr>"
  let ?old = "\<lparr>Path = ''a.txt'', Size = 10, ModTime = 1, Hash = [], IsDir = False\<rparr>"
  have f: "fst (scanDirectory ?m1 ?fs) = None" by code_simp
  then have h1: "scanDirectory ?m1 ?fs = (None, snd (scanDirectory ?m1 ?fs))"
    by (metis prod.collapse)
  have h2: "map_of (files (snd (scanDirectory ?m1 ?fs))) ''a.txt'' = Some ?new" by code_simp
  have h3: "map_of (files ?m1) ''a.txt'' = Some ?old" by code_simp
  have l: "count_list (logger ?m1) (LogEvent MODIFICADO ''a.txt'') = 0" by code_simp
  have r: "files (run [OpStart (Dir 4096 1 [(''a.txt'', File 10 1)])] ?m0) =
     [(''.'', \<lparr>Path = ''.'', Size = 4096, ModTime = 1, Hash = [], IsDir = True\<rparr>),
      (''a.txt'', ?old)]" by code_simp
  note t = scan_records_no_fingerprint[of "[OpStart (Dir 4096 1 [(''a.txt'', File 10 1)])]"
      "LoadConfig emptyEnv" ?m1 ?fs "snd (scanDirectory ?m1 ?fs)" "''a.txt''" ?new ?old]
  from t have "\<forall>x\<in>set (files (run [OpStart (Dir 4096 1 [(''a.txt'', File 10 1)])] ?m0)). Hash (snd x) = []"
    by blast
  with r have "Hash (snd (files (run [OpStart (Dir 4096 1 [(''a.txt'', File 10 1)])] ?m0) ! 1)) = []"
    by simp
  moreover from t h1 h2 h3 l
  have "count_list (logger (snd (scanDirectory ?m1 ?fs))) (LogEvent MODIFICADO ''a.txt'') = 1"
    by simp
  ultimately show ?thesis using h1 r by blast
qed

section \<open>The stop signal\<close>

lemma Start_keeps_stopChan: "stopChan (snd (Start m fs)) = stopChan m"
  using scanDirectory_keeps(3)[of "m\<lparr>isRunnig := True\<rparr>" fs]
  by (cases "scanDirectory (m\<lparr>isRunnig := True\<rparr>) fs";
      cases "fst (scanDirectory (m\<lparr>isRunnig := True\<rparr>) fs)")
     (simp_all add: Start_def Start_enter_def Start_finish_def)

text \<open>
  Claim C2. \<open>Start\<close> never assigns \<open>stopChan\<close> (\<open>Start_keeps_stopChan\<close>); the one
  channel is made in \<open>NewFileMonitor\<close>. After \<open>Start\<close>, \<open>Stop\<close>, the return of the
  first loop and a second \<open>Start\<close>, the monitor is running with one loop and the
  channel is the closed one: the new loop returns at its first \<open>select\<close> although
  \<open>Stop\<close> was not called again, and the next \<open>Stop\<close> closes a closed channel, which
  is a panic.
\<close>

theorem restart_keeps_fired_signal:
  "isRunnig (run [OpStart (Dir 4096 0 []), OpStop, OpLoop False CaseTicker (Dir 4096 0 []),
                  OpStart (Dir 4096 0 [])] (NewFileMonitor (LoadConfig emptyEnv))) \<and>
   loops (run [OpStart (Dir 4096 0 []), OpStop, OpLoop False CaseTicker (Dir 4096 0 []),
               OpStart (Dir 4096 0 [])] (NewFileMonitor (LoadConfig emptyEnv))) = 1 \<and>
   stopChan (run [OpStart (Dir 4096 0 []), OpStop, OpLoop False CaseTicker (Dir 4096 0 []),
                  OpStart (Dir 4096 0 [])] (NewFileMonitor (LoadConfig emptyEnv))) = ChanClosed \<and>
   fst (monitorLoop_iter
          (run [OpStart (Dir 4096 0 []), OpStop, OpLoop False CaseTicker (Dir 4096 0 []),
                OpStart (Dir 4096 0 [])] (NewFileMonitor (LoadConfig emptyEnv)))
          False CaseTicker (Dir 4096 0 [])) = Returned \<and>
   Stop (run [OpStart (Dir 4096 0 []), OpStop, OpLoop False CaseTicker (Dir 4096 0 []),
              OpStart (Dir 4096 0 [])] (NewFileMonitor (LoadConfig emptyEnv))) =
     Inl CloseOfClosedChannel"
  by code_simp

text \<open>
  The \<open>select\<close> gives the stop signal no priority. At this monitor the channel is
  closed and a tick is pending; when the ticker is picked, the scan runs and logs what
  it finds.
\<close>

theorem stop_has_no_priority:
  "stopChan (run [OpStart (Dir 4096 0 []), OpStop] (NewFileMonitor (LoadConfig emptyEnv))) = ChanClosed \<and>
   selectCase True ChanClosed CaseTicker = Some CaseTicker \<and>
   fst (monitorLoop_iter (run [OpStart (Dir 4096 0 []), OpStop] (NewFileMonitor (LoadConfig emptyEnv)))
          True CaseTicker (Dir 4096 0 [(''new.txt'', File 1 1)])) = Scanned \<and>
   logger (snd (monitorLoop_iter (run [OpStart (Dir 4096 0 []), OpStop] (NewFileMonitor (LoadConfig emptyEnv)))
          True CaseTicker (Dir 4096 0 [(''new.txt'', File 1 1)]))) =
     [LogEvent CRIADO ''.'', LogEvent CRIADO ''new.txt'']"
  by code_simp

text \<open>
  Claim C9, as amended. When the stop signal is ready, a pass of the loop returns
  without a scan unless a tick is pending as well and the \<open>select\<close> picks the ticker;
  in that case one more scan runs.
\<close>

theorem stop_exits_unless_ticker_chosen:
  assumes "stopChan m = ChanClosed"
  shows "monitorLoop_iter m tick pick fs =
           (if tick \<and> pick = CaseTicker then (Scanned, snd (scanDirectory m fs))
            else (Returned, m\<lparr>loops := loops m - 1\<rparr>))"
  using assms by (cases pick) (simp_all add: monitorLoop_iter_def selectCase_def)

theorem stop_exits_unless_ticker_chosen_witness:
  "stopChan (run [OpStart (Dir 4096 0 []), OpStop] (NewFileMonitor (LoadConfig emptyEnv))) = ChanClosed \<and>
   fst (monitorLoop_iter (run [OpStart (Dir 4096 0 []), OpStop] (NewFileMonitor (LoadConfig emptyEnv)))
          False CaseTicker (Dir 4096 0 [])) = Returned \<and>
   fst (monitorLoop_iter (run [OpStart (Dir 4096 0 []), OpStop] (NewFileMonitor (LoadConfig emptyEnv)))
          True CaseStop (Dir 4096 0 [])) = Returned \<and>
   fst (monitorLoop_iter (run [OpStart (Dir 4096 0 []), OpStop] (NewFileMonitor (LoadConfig emptyEnv)))
          True CaseTicker (Dir 4096 0 [])) = Scanned"
proof -
  let ?m = "run [OpStart (Dir 4096 0 []), OpStop] (NewFileMonitor (LoadConfig emptyEnv))"
  have h: "stopChan ?m = ChanClosed" by code_simp
  from stop_exits_unless_ticker_chosen[OF h, of False CaseTicker "Dir 4096 0 []"]
       stop_exits_unless_ticker_chosen[OF h, of True CaseStop "Dir 4096 0 []"]
       stop_exits_unless_ticker_chosen[OF h, of True CaseTicker "Dir 4096 0 []"] h
  show ?thesis by simp
qed

section \<open>The log directory\<close>

text \<open>
  Claim C7. \<open>filepath.Walk\<close> hands the callback the root as it was given and every
  other path as \<open>filepath.Join\<close> builds it, cleaned. With the defaults, the root is
  \<open>.\<close> and the log directory is visited under the path \<open>logs\<close>, which is not the
  string \<open>./logs\<close> of \<open>LogDir\<close>: the directory is recorded and entered, and the log
  file in it is recorded and reported. With \<open>LogDir\<close> set to \<open>logs\<close> the same tree is
  pruned.
\<close>

theorem default_log_dir_not_pruned:
  "WatchDir (LoadConfig emptyEnv) = ''.'' \<and> LogDir (LoadConfig emptyEnv) = ''./logs'' \<and>
   map fst (files (snd (scanDirectory (NewFileMonitor (LoadConfig emptyEnv))
      (Dir 4096 1 [(''a.txt'', File 10 1),
                   (''logs'', Dir 4096 2 [(''file_monitor_2025-01-01.log'', File 120 3)])])))) =
     [''.'', ''a.txt'', ''logs'', ''logs/file_monitor_2025-01-01.log''] \<and>
   logger (snd (scanDirectory (NewFileMonitor (LoadConfig emptyEnv))
      (Dir 4096 1 [(''a.txt'', File 10 1),
                   (''logs'', Dir 4096 2 [(''file_monitor_2025-01-01.log'', File 120 3)])]))) =
     [LogEvent CRIADO ''.'', LogEvent CRIADO ''a.txt'', LogEvent CRIADO ''logs'',
      LogEvent CRIADO ''logs/file_monitor_2025-01-01.log''] \<and>
   map fst (files (snd (scanDirectory (NewFileMonitor ((LoadConfig emptyEnv)\<lparr>LogDir := ''logs''\<rparr>))
      (Dir 4096 1 [(''a.txt'', File 10 1),
                   (''logs'', Dir 4096 2 [(''file_monitor_2025-01-01.log'', File 120 3)])])))) =
     [''.'', ''a.txt'']"
  by code_simp

end
